theory Spec2Isabelle
  imports Main
begin

section \<open>Python values\<close>

text \<open>
  A Python \<open>str\<close> is a sequence of Unicode code points; a code point is modelled by its
  number. \<open>str ''abc''\<close> writes an ASCII literal as such a sequence.
\<close>

type_synonym pystr = "nat list"

abbreviation TAB :: nat where "TAB \<equiv> 9"
abbreviation SPACE :: nat where "SPACE \<equiv> 32"
abbreviation str :: "string \<Rightarrow> pystr" where "str s \<equiv> map of_char s"

text \<open>
  Whitespace as Python defines it for \<open>str\<close>: the predicate behind \<open>str.isspace\<close>,
  behind \<open>str.strip()\<close> without argument, and behind \<open>\s\<close> in a \<open>str\<close> pattern of
  \<open>re\<close>. It holds of U+0009..U+000D, U+001C..U+0020, U+0085, U+00A0, U+1680,
  U+2000..U+200A, U+2028, U+2029, U+202F, U+205F and U+3000.
\<close>

definition isspace :: "nat \<Rightarrow> bool" where
  "isspace c \<longleftrightarrow>
     (9 \<le> c \<and> c \<le> 13) \<or> (28 \<le> c \<and> c \<le> 32) \<or> c = 133 \<or> c = 160 \<or>
     c = 5760 \<or> (8192 \<le> c \<and> c \<le> 8202) \<or> c = 8232 \<or> c = 8233 \<or>
     c = 8239 \<or> c = 8287 \<or> c = 12288"

text \<open>The values a caller can pass where the annotation asks for a \<open>str\<close>.\<close>

datatype pyobj =
    PyStr pystr
  | PyNone
  | PyBool bool
  | PyInt int
  | PyBytes "nat list"
  | PyList "pyobj list"

text \<open>\<open>type(word).__name__\<close>\<close>

fun type_name :: "pyobj \<Rightarrow> string" where
  "type_name (PyStr _) = ''str''"
| "type_name PyNone = ''NoneType''"
| "type_name (PyBool _) = ''bool''"
| "type_name (PyInt _) = ''int''"
| "type_name (PyBytes _) = ''bytes''"
| "type_name (PyList _) = ''list''"

text \<open>\<open>isinstance(word, str)\<close>\<close>

fun isinstance_str :: "pyobj \<Rightarrow> bool" where
  "isinstance_str (PyStr _) = True"
| "isinstance_str _ = False"

text \<open>The only exception the processor raises itself; it carries its message.\<close>

datatype error = TypeError string

section \<open>The library calls the processor makes\<close>

text \<open>
  \<open>s.strip()\<close>: the whitespace at the front is skipped, then the whitespace at the back.
\<close>

definition py_strip :: "pystr \<Rightarrow> pystr" where
  "py_strip s = rev (dropWhile isspace (rev (dropWhile isspace s)))"

text \<open>
  \<open>re.sub(r"\t+", " ", s)\<close>: the engine looks for the next tab, copies what stands before
  it, writes the replacement for the whole run the greedy \<open>\t+\<close> matches, and goes on
  behind the run; what follows the last match is copied as it is.
\<close>

function re_sub_tabs :: "pystr \<Rightarrow> pystr" where
  "re_sub_tabs s =
     (case dropWhile (\<lambda>c. c \<noteq> TAB) s of
        [] \<Rightarrow> s
      | c # rest \<Rightarrow>
          takeWhile (\<lambda>c. c \<noteq> TAB) s @
          SPACE # re_sub_tabs (dropWhile (\<lambda>c. c = TAB) rest))"
  by pat_completeness auto
termination
proof (relation "measure length")
  show "wf (measure length)" by simp
next
  fix s :: pystr and c rest
  assume "dropWhile (\<lambda>c. c \<noteq> TAB) s = c # rest"
  then have "length s \<ge> Suc (length rest)"
    using length_dropWhile_le [of "\<lambda>c. c \<noteq> TAB" s] by simp
  moreover have "length (dropWhile (\<lambda>c. c = TAB) rest) \<le> length rest"
    by (rule length_dropWhile_le)
  ultimately show "(dropWhile (\<lambda>c. c = TAB) rest, s) \<in> measure length"
    by simp
qed

text \<open>
  \<open>re.split(r"\s+", s)\<close>: the engine looks for the next whitespace character, emits what
  stands before it (possibly nothing), skips the whole run the greedy \<open>\s+\<close> matches, and
  goes on behind the run; what follows the last match is the last piece, so the result
  always has at least one element.
\<close>

function re_split_ws :: "pystr \<Rightarrow> pystr list" where
  "re_split_ws s =
     (case dropWhile (\<lambda>c. \<not> isspace c) s of
        [] \<Rightarrow> [s]
      | c # rest \<Rightarrow>
          takeWhile (\<lambda>c. \<not> isspace c) s # re_split_ws (dropWhile isspace rest))"
  by pat_completeness auto
termination
proof (relation "measure length")
  show "wf (measure length)" by simp
next
  fix s :: pystr and c rest
  assume "dropWhile (\<lambda>c. \<not> isspace c) s = c # rest"
  then have "length s \<ge> Suc (length rest)"
    using length_dropWhile_le [of "\<lambda>c. \<not> isspace c" s] by simp
  moreover have "length (dropWhile isspace rest) \<le> length rest"
    by (rule length_dropWhile_le)
  ultimately show "(dropWhile isspace rest, s) \<in> measure length"
    by simp
qed

text \<open>\<open>xs.count(x)\<close>: one pass over the list, comparing with \<open>==\<close>.\<close>

primrec py_count :: "'a list \<Rightarrow> 'a \<Rightarrow> int" where
  "py_count [] x = 0"
| "py_count (y # ys) x = (if y = x then 1 else 0) + py_count ys x"

text \<open>\<open>len(xs)\<close>, a Python integer.\<close>

definition py_len :: "'a list \<Rightarrow> int" where
  "py_len xs = int (length xs)"

section \<open>The profiling decorator\<close>

text \<open>\<open>profile(func)\<close> returns a wrapper that calls \<open>func\<close> with the arguments it was given.\<close>

definition profile :: "('a \<Rightarrow> 'b) \<Rightarrow> ('a \<Rightarrow> 'b)" where
  "profile func = (\<lambda>args. func args)"

section \<open>SimpleTextProcessor\<close>

text \<open>
  The instance holds the raw text. A method returns its result, or the exception it
  raised, together with the instance as the call leaves it.
\<close>

record processor =
  self_text :: pystr

type_synonym 'a outcome = "(error + 'a) \<times> processor"

definition preprocess :: "processor \<Rightarrow> pystr outcome" where
  "preprocess self =
     (let result = py_strip (self_text self);
          result = re_sub_tabs result
      in (Inr result, self))"

definition tokenize :: "processor \<Rightarrow> pystr list outcome" where
  "tokenize self =
     (case preprocess self of
        (Inl e, self) \<Rightarrow> (Inl e, self)
      | (Inr preprocessed, self) \<Rightarrow>
          if preprocessed = [] then (Inr [], self)
          else (let tokens = re_split_ws preprocessed in (Inr tokens, self)))"

definition count_words_body :: "processor \<Rightarrow> int outcome" where
  "count_words_body self =
     (case tokenize self of
        (Inl e, self) \<Rightarrow> (Inl e, self)
      | (Inr tokens, self) \<Rightarrow> (let count = py_len tokens in (Inr count, self)))"

definition count_words :: "processor \<Rightarrow> int outcome" where
  "count_words = profile count_words_body"

definition word_frequency :: "processor \<Rightarrow> pyobj \<Rightarrow> int outcome" where
  "word_frequency self word =
     (if \<not> isinstance_str word
      then (Inl (TypeError (''Expected str, got '' @ type_name word)), self)
      else (case tokenize self of
              (Inl e, self) \<Rightarrow> (Inl e, self)
            | (Inr tokens, self) \<Rightarrow>
                (let frequency = py_count (map PyStr tokens) word
                 in (Inr frequency, self))))"

section \<open>The specification's wording\<close>

text \<open>The six characters the specification lists as whitespace.\<close>

definition spec_whitespace :: "nat \<Rightarrow> bool" where
  "spec_whitespace c \<longleftrightarrow> c = 32 \<or> c = 9 \<or> c = 10 \<or> c = 13 \<or> c = 12 \<or> c = 11"

text \<open>
  Leading and trailing whitespace removed: the leading run and the trailing run are
  measured, and what lies between them is kept.
\<close>

definition spec_strip :: "(nat \<Rightarrow> bool) \<Rightarrow> pystr \<Rightarrow> pystr" where
  "spec_strip ws t =
     (let lead = length (takeWhile ws t);
          trail = length (takeWhile ws (rev t))
      in take (length t - lead - trail) (drop lead t))"

text \<open>
  Every maximal run of tabs replaced by one space: a tab that another tab follows is
  dropped, the last tab of a run becomes a space, every other character stays.
\<close>

fun spec_collapse_tabs :: "pystr \<Rightarrow> pystr" where
  "spec_collapse_tabs (c # d # cs) =
     (if c = TAB \<and> d = TAB then spec_collapse_tabs (d # cs)
      else (if c = TAB then SPACE else c) # spec_collapse_tabs (d # cs))"
| "spec_collapse_tabs [c] = [if c = TAB then SPACE else c]"
| "spec_collapse_tabs [] = []"

definition spec_normalize :: "(nat \<Rightarrow> bool) \<Rightarrow> pystr \<Rightarrow> pystr" where
  "spec_normalize ws t = spec_collapse_tabs (spec_strip ws t)"

text \<open>
  Splitting on maximal runs of whitespace, the separators discarded: the characters are
  read one by one into the current word, and a whitespace character closes the word if
  there is one.
\<close>

fun spec_split :: "(nat \<Rightarrow> bool) \<Rightarrow> pystr \<Rightarrow> pystr \<Rightarrow> pystr list" where
  "spec_split ws cur [] = (if cur = [] then [] else [cur])"
| "spec_split ws cur (c # cs) =
     (if ws c then (if cur = [] then spec_split ws [] cs else cur # spec_split ws [] cs)
      else spec_split ws (cur @ [c]) cs)"

section \<open>Properties of the library calls\<close>

declare re_sub_tabs.simps [simp del]
declare re_split_ws.simps [simp del]

subsection \<open>strip\<close>

lemma last_dropWhile_keep: "dropWhile P xs \<noteq> [] \<Longrightarrow> last (dropWhile P xs) = last xs"
proof -
  assume ne: "dropWhile P xs \<noteq> []"
  have "last xs = last (takeWhile P xs @ dropWhile P xs)" by simp
  also have "\<dots> = last (dropWhile P xs)" using ne by (rule last_appendR)
  finally show ?thesis by simp
qed

lemma dropWhile_hd_id: "xs = [] \<or> \<not> P (hd xs) \<Longrightarrow> dropWhile P xs = xs"
  by (cases xs) auto

lemma py_strip_Nil: "py_strip [] = []"
  by (simp add: py_strip_def)

lemma py_strip_hd:
  assumes "py_strip s \<noteq> []"
  shows "\<not> isspace (hd (py_strip s))"
proof -
  let ?a = "dropWhile isspace s"
  let ?b = "dropWhile isspace (rev ?a)"
  from assms have b: "?b \<noteq> []" by (simp add: py_strip_def)
  have a: "?a \<noteq> []"
  proof
    assume "?a = []"
    then have "?b = []" by (simp only: rev.simps dropWhile.simps)
    with b show False ..
  qed
  have "hd (py_strip s) = last ?b" using b by (simp add: py_strip_def hd_rev)
  also have "\<dots> = last (rev ?a)" using b by (rule last_dropWhile_keep)
  also have "\<dots> = hd ?a" using a by (simp add: last_rev)
  finally show ?thesis using hd_dropWhile [OF a] by simp
qed

lemma py_strip_last:
  assumes "py_strip s \<noteq> []"
  shows "\<not> isspace (last (py_strip s))"
proof -
  let ?b = "dropWhile isspace (rev (dropWhile isspace s))"
  from assms have b: "?b \<noteq> []" by (simp add: py_strip_def)
  have "last (py_strip s) = hd ?b" using b by (simp add: py_strip_def last_rev)
  then show ?thesis using hd_dropWhile [OF b] by simp
qed

lemma py_strip_fixed:
  assumes "s = [] \<or> (\<not> isspace (hd s) \<and> \<not> isspace (last s))"
  shows "py_strip s = s"
proof (cases s)
  case Nil
  then show ?thesis by (simp add: py_strip_def)
next
  case (Cons c cs)
  with assms have h: "\<not> isspace c" and l: "\<not> isspace (last s)" by simp_all
  from h Cons have a: "dropWhile isspace s = s" by simp
  have "rev s \<noteq> []" using Cons by simp
  moreover have "hd (rev s) = last s" using Cons by (simp add: hd_rev)
  ultimately have "dropWhile isspace (rev s) = rev s"
    using l by (intro dropWhile_hd_id) simp
  with a show ?thesis by (simp add: py_strip_def)
qed

lemma py_strip_decompose:
  "\<exists>pre suf. s = pre @ py_strip s @ suf \<and> list_all isspace pre \<and> list_all isspace suf"
proof -
  let ?a = "dropWhile isspace s"
  let ?b = "dropWhile isspace (rev ?a)"
  have 1: "s = takeWhile isspace s @ ?a" by simp
  have "?a = rev (takeWhile isspace (rev ?a) @ ?b)"
    by (simp only: takeWhile_dropWhile_id rev_rev_ident)
  then have 2: "?a = rev ?b @ rev (takeWhile isspace (rev ?a))"
    by (simp only: rev_append)
  have 3: "list_all isspace (takeWhile isspace s)"
    by (simp add: list_all_iff) (meson set_takeWhileD)
  have 4: "list_all isspace (rev (takeWhile isspace (rev ?a)))"
    by (simp add: list_all_iff) (meson set_takeWhileD)
  have "s = takeWhile isspace s @ py_strip s @ rev (takeWhile isspace (rev ?a))"
    using 1 2 by (simp add: py_strip_def)
  with 3 4 show ?thesis by blast
qed

lemma py_strip_spec: "py_strip s = spec_strip isspace s"
proof (cases "dropWhile isspace s = []")
  case True
  have "py_strip s = []" unfolding py_strip_def True by simp
  moreover have "drop (length (takeWhile isspace s)) s = []"
    using True by (simp only: dropWhile_eq_drop [symmetric])
  ultimately show ?thesis by (simp only: spec_strip_def Let_def take_Nil)
next
  case False
  let ?a = "dropWhile isspace s"
  let ?k = "length (takeWhile isspace (rev ?a))"
  have a: "?a = drop (length (takeWhile isspace s)) s" by (rule dropWhile_eq_drop)
  have "\<exists>x \<in> set (rev ?a). \<not> isspace x"
    using False hd_dropWhile [OF False] by (metis hd_in_set set_rev)
  then have tw: "takeWhile isspace (rev ?a @ rev (takeWhile isspace s)) = takeWhile isspace (rev ?a)"
    by (metis takeWhile_append1)
  have "rev s = rev ?a @ rev (takeWhile isspace s)"
    by (metis rev_append takeWhile_dropWhile_id)
  with tw have k: "length (takeWhile isspace (rev s)) = ?k" by simp
  have "py_strip s = rev (drop ?k (rev ?a))"
    by (simp add: py_strip_def dropWhile_eq_drop [symmetric])
  also have "\<dots> = take (length ?a - ?k) ?a" by (simp add: rev_drop)
  also have "length ?a = length s - length (takeWhile isspace s)"
    by (subst a) simp
  finally show ?thesis using k a by (simp add: spec_strip_def Let_def)
qed

subsection \<open>re.sub\<close>

lemma re_sub_tabs_Nil: "re_sub_tabs [] = []"
  by (simp add: re_sub_tabs.simps)

lemma re_sub_tabs_Cons:
  "re_sub_tabs (c # cs) =
     (if c = TAB then SPACE # re_sub_tabs (dropWhile (\<lambda>x. x = TAB) cs)
      else c # re_sub_tabs cs)"
proof (cases "c = TAB")
  case True
  then show ?thesis by (subst re_sub_tabs.simps) simp
next
  case False
  then have d: "dropWhile (\<lambda>x. x \<noteq> TAB) (c # cs) = dropWhile (\<lambda>x. x \<noteq> TAB) cs"
    and t: "takeWhile (\<lambda>x. x \<noteq> TAB) (c # cs) = c # takeWhile (\<lambda>x. x \<noteq> TAB) cs"
    by simp_all
  show ?thesis
  proof (cases "dropWhile (\<lambda>x. x \<noteq> TAB) cs")
    case Nil
    have "re_sub_tabs cs = cs"
      by (subst re_sub_tabs.simps) (simp only: Nil list.case)
    moreover have "re_sub_tabs (c # cs) = c # cs"
      by (subst re_sub_tabs.simps) (simp only: d Nil list.case)
    ultimately show ?thesis using False by simp
  next
    case (Cons d' rest)
    have "re_sub_tabs (c # cs) =
            (c # takeWhile (\<lambda>x. x \<noteq> TAB) cs) @ SPACE # re_sub_tabs (dropWhile (\<lambda>x. x = TAB) rest)"
      by (subst re_sub_tabs.simps) (simp only: d t Cons list.case)
    moreover have "re_sub_tabs cs =
            takeWhile (\<lambda>x. x \<noteq> TAB) cs @ SPACE # re_sub_tabs (dropWhile (\<lambda>x. x = TAB) rest)"
      by (subst re_sub_tabs.simps) (simp only: Cons list.case)
    ultimately show ?thesis using False by simp
  qed
qed

lemma spec_collapse_tabs_nontab:
  "c \<noteq> TAB \<Longrightarrow> spec_collapse_tabs (c # cs) = c # spec_collapse_tabs cs"
  by (cases cs) simp_all

lemma spec_collapse_tabs_tab:
  "spec_collapse_tabs (TAB # cs) = SPACE # spec_collapse_tabs (dropWhile (\<lambda>x. x = TAB) cs)"
proof (induction cs)
  case Nil
  show ?case by simp
next
  case (Cons d ds)
  show ?case
  proof (cases "d = TAB")
    case True
    with Cons show ?thesis by simp
  next
    case False
    then show ?thesis by simp
  qed
qed

lemma re_sub_tabs_spec: "re_sub_tabs s = spec_collapse_tabs s"
proof (induction s rule: length_induct)
  case (1 s)
  show ?case
  proof (cases s)
    case Nil
    then show ?thesis by (simp add: re_sub_tabs_Nil)
  next
    case (Cons c cs)
    show ?thesis
    proof (cases "c = TAB")
      case True
      have "length (dropWhile (\<lambda>x. x = TAB) cs) < length s"
        using Cons length_dropWhile_le [of "\<lambda>x. x = TAB" cs] by simp
      with 1 have "re_sub_tabs (dropWhile (\<lambda>x. x = TAB) cs)
                   = spec_collapse_tabs (dropWhile (\<lambda>x. x = TAB) cs)" by blast
      with True Cons show ?thesis
        by (simp add: re_sub_tabs_Cons spec_collapse_tabs_tab)
    next
      case False
      from 1 Cons have "re_sub_tabs cs = spec_collapse_tabs cs" by simp
      with False Cons show ?thesis
        by (simp add: re_sub_tabs_Cons spec_collapse_tabs_nontab)
    qed
  qed
qed

lemma re_sub_tabs_eq_Nil: "re_sub_tabs s = [] \<longleftrightarrow> s = []"
  by (cases s) (simp_all add: re_sub_tabs_Nil re_sub_tabs_Cons)

lemma re_sub_tabs_hd: "s \<noteq> [] \<Longrightarrow> hd s \<noteq> TAB \<Longrightarrow> hd (re_sub_tabs s) = hd s"
  by (cases s) (simp_all add: re_sub_tabs_Cons)

lemma re_sub_tabs_id: "TAB \<notin> set s \<Longrightarrow> re_sub_tabs s = s"
  by (induction s) (simp_all add: re_sub_tabs_Nil re_sub_tabs_Cons)

lemma re_sub_tabs_no_tab: "TAB \<notin> set (re_sub_tabs s)"
proof (induction s rule: length_induct)
  case (1 s)
  show ?case
  proof (cases s)
    case Nil
    then show ?thesis by (simp add: re_sub_tabs_Nil)
  next
    case (Cons c cs)
    have "length (dropWhile (\<lambda>x. x = TAB) cs) < length s"
      using Cons length_dropWhile_le [of "\<lambda>x. x = TAB" cs] by simp
    with 1 have a: "TAB \<notin> set (re_sub_tabs (dropWhile (\<lambda>x. x = TAB) cs))" by blast
    from 1 Cons have b: "TAB \<notin> set (re_sub_tabs cs)" by simp
    from a b Cons show ?thesis by (simp add: re_sub_tabs_Cons)
  qed
qed

lemma re_sub_tabs_last: "s \<noteq> [] \<Longrightarrow> last s \<noteq> TAB \<Longrightarrow> last (re_sub_tabs s) = last s"
proof (induction s rule: length_induct)
  case (1 s)
  from \<open>s \<noteq> []\<close> obtain c cs where s: "s = c # cs" by (cases s) auto
  show ?case
  proof (cases "cs = []")
    case True
    with s 1(3) show ?thesis by (simp add: re_sub_tabs_Cons re_sub_tabs_Nil)
  next
    case False
    then have lcs: "last cs = last s" using s by simp
    show ?thesis
    proof (cases "c = TAB")
      case nt: False
      have "last (re_sub_tabs cs) = last cs"
        using 1(1) s False lcs 1(3) by simp
      moreover have "re_sub_tabs cs \<noteq> []" using False by (simp add: re_sub_tabs_eq_Nil)
      ultimately show ?thesis using s nt lcs by (simp add: re_sub_tabs_Cons)
    next
      case True
      let ?d = "dropWhile (\<lambda>x. x = TAB) cs"
      have "last cs \<in> set cs" using False by simp
      then have dne: "?d \<noteq> []" using lcs 1(3) by (auto simp: dropWhile_eq_Nil_conv)
      then have ld: "last ?d = last s" using lcs by (simp add: last_dropWhile_keep)
      have "length ?d < length s"
        using s length_dropWhile_le [of "\<lambda>x. x = TAB" cs] by simp
      with 1(1) dne ld 1(3) have "last (re_sub_tabs ?d) = last ?d" by simp
      moreover have "re_sub_tabs ?d \<noteq> []" using dne by (simp add: re_sub_tabs_eq_Nil)
      ultimately show ?thesis using s True ld by (simp add: re_sub_tabs_Cons)
    qed
  qed
qed

subsection \<open>re.split\<close>

lemma re_split_ws_plain:
  assumes "\<forall>c \<in> set s. \<not> isspace c"
  shows "re_split_ws s = [s]"
proof -
  from assms have "dropWhile (\<lambda>c. \<not> isspace c) s = []" by simp
  then show ?thesis by (subst re_split_ws.simps) (simp only: list.case)
qed

lemma re_split_ws_at_space:
  assumes cur: "\<forall>c \<in> set cur. \<not> isspace c" and c: "isspace c"
  shows "re_split_ws (cur @ c # cs) = cur # re_split_ws (dropWhile isspace cs)"
proof -
  have d: "dropWhile (\<lambda>c. \<not> isspace c) (cur @ c # cs) = c # cs"
    using cur c by (simp add: dropWhile_append2)
  have t: "takeWhile (\<lambda>c. \<not> isspace c) (cur @ c # cs) = cur"
    using cur c by (simp add: takeWhile_append2)
  show ?thesis by (subst re_split_ws.simps) (simp only: d t list.case)
qed

lemma re_split_ws_not_Nil: "re_split_ws s \<noteq> []"
  by (subst re_split_ws.simps) (simp split: list.split)

lemma re_split_ws_skip:
  "filter (\<lambda>w. w \<noteq> []) (re_split_ws (dropWhile isspace cs)) = filter (\<lambda>w. w \<noteq> []) (re_split_ws cs)"
proof (cases cs)
  case Nil
  then show ?thesis by simp
next
  case (Cons d ds)
  show ?thesis
  proof (cases "isspace d")
    case True
    have "re_split_ws ([] @ d # ds) = [] # re_split_ws (dropWhile isspace ds)"
      using True by (intro re_split_ws_at_space) simp_all
    with True Cons show ?thesis by simp
  next
    case False
    with Cons show ?thesis by simp
  qed
qed

lemma spec_split_re_split:
  "\<forall>c \<in> set cur. \<not> isspace c \<Longrightarrow>
   spec_split isspace cur s = filter (\<lambda>w. w \<noteq> []) (re_split_ws (cur @ s))"
proof (induction s arbitrary: cur)
  case Nil
  then show ?case by (simp add: re_split_ws_plain)
next
  case (Cons c cs)
  show ?case
  proof (cases "isspace c")
    case True
    have "spec_split isspace [] cs = filter (\<lambda>w. w \<noteq> []) (re_split_ws ([] @ cs))"
      by (rule Cons.IH) simp
    then have "spec_split isspace [] cs = filter (\<lambda>w. w \<noteq> []) (re_split_ws (dropWhile isspace cs))"
      by (simp add: re_split_ws_skip)
    then show ?thesis
      using True Cons.prems by (simp add: re_split_ws_at_space)
  next
    case False
    with Cons.prems have "\<forall>x \<in> set (cur @ [c]). \<not> isspace x" by simp
    then have "spec_split isspace (cur @ [c]) cs
               = filter (\<lambda>w. w \<noteq> []) (re_split_ws ((cur @ [c]) @ cs))"
      by (rule Cons.IH)
    with False show ?thesis by simp
  qed
qed

lemma re_split_ws_tokens_clean:
  "tok \<in> set (re_split_ws s) \<Longrightarrow> c \<in> set tok \<Longrightarrow> \<not> isspace c"
proof (induction s rule: re_split_ws.induct)
  case (1 s)
  show ?case
  proof (cases "dropWhile (\<lambda>c. \<not> isspace c) s")
    case Nil
    then have "re_split_ws s = [s]"
      by (subst re_split_ws.simps) (simp only: list.case)
    with 1(2,3) have "c \<in> set s" by simp
    moreover have "\<forall>x \<in> set s. \<not> isspace x" using Nil by (simp add: dropWhile_eq_Nil_conv)
    ultimately show ?thesis by blast
  next
    case (Cons d rest)
    then have eq: "re_split_ws s =
        takeWhile (\<lambda>c. \<not> isspace c) s # re_split_ws (dropWhile isspace rest)"
      by (subst re_split_ws.simps) (simp only: list.case)
    from 1(2) eq consider "tok = takeWhile (\<lambda>c. \<not> isspace c) s"
      | "tok \<in> set (re_split_ws (dropWhile isspace rest))" by auto
    then show ?thesis
    proof cases
      case 1
      with \<open>c \<in> set tok\<close> show ?thesis by (auto dest: set_takeWhileD)
    next
      case 2
      then show ?thesis using "1.IH" [OF Cons] \<open>c \<in> set tok\<close> by blast
    qed
  qed
qed

lemma re_split_ws_no_empty:
  "s \<noteq> [] \<Longrightarrow> \<not> isspace (hd s) \<Longrightarrow> \<not> isspace (last s) \<Longrightarrow> [] \<notin> set (re_split_ws s)"
proof (induction s rule: re_split_ws.induct)
  case (1 s)
  show ?case
  proof (cases "dropWhile (\<lambda>c. \<not> isspace c) s")
    case Nil
    then have "re_split_ws s = [s]"
      by (subst re_split_ws.simps) (simp only: list.case)
    with 1(2) show ?thesis by simp
  next
    case (Cons d rest)
    let ?r = "dropWhile isspace rest"
    from Cons have eq: "re_split_ws s =
        takeWhile (\<lambda>c. \<not> isspace c) s # re_split_ws ?r"
      by (subst re_split_ws.simps) (simp only: list.case)
    have d: "isspace d" using hd_dropWhile [of "\<lambda>c. \<not> isspace c" s] Cons by simp
    have s: "s = takeWhile (\<lambda>c. \<not> isspace c) s @ d # rest"
      using Cons by (metis takeWhile_dropWhile_id)
    have first: "takeWhile (\<lambda>c. \<not> isspace c) s \<noteq> []"
      using 1(2,3) by (cases s) simp_all
    have "last s = last (d # rest)" by (subst s) simp
    with d 1(4) have rne: "rest \<noteq> []" and lr: "last rest = last s" by (auto split: if_splits)
    have "last rest \<in> set rest" using rne by simp
    with lr 1(4) have r: "?r \<noteq> []" by (auto simp: dropWhile_eq_Nil_conv)
    have "\<not> isspace (hd ?r)" using r by (rule hd_dropWhile)
    moreover have "\<not> isspace (last ?r)" using r lr 1(4) by (simp add: last_dropWhile_keep)
    ultimately have "[] \<notin> set (re_split_ws ?r)" using "1.IH" [OF Cons] r by blast
    with first eq show ?thesis by simp
  qed
qed

lemma filter_dropWhile_same: "filter (\<lambda>c. \<not> P c) (dropWhile P xs) = filter (\<lambda>c. \<not> P c) xs"
  by (induction xs) simp_all

lemma re_split_ws_concat: "concat (re_split_ws s) = filter (\<lambda>c. \<not> isspace c) s"
proof (induction s rule: re_split_ws.induct)
  case (1 s)
  show ?case
  proof (cases "dropWhile (\<lambda>c. \<not> isspace c) s")
    case Nil
    then have "re_split_ws s = [s]"
      by (subst re_split_ws.simps) (simp only: list.case)
    moreover have "\<forall>x \<in> set s. \<not> isspace x" using Nil by (simp add: dropWhile_eq_Nil_conv)
    ultimately show ?thesis by simp
  next
    case (Cons d rest)
    let ?t = "takeWhile (\<lambda>c. \<not> isspace c) s"
    from Cons have eq: "re_split_ws s = ?t # re_split_ws (dropWhile isspace rest)"
      by (subst re_split_ws.simps) (simp only: list.case)
    have d: "isspace d" using hd_dropWhile [of "\<lambda>c. \<not> isspace c" s] Cons by simp
    have s: "s = ?t @ d # rest" using Cons by (metis takeWhile_dropWhile_id)
    have t: "filter (\<lambda>c. \<not> isspace c) ?t = ?t"
      by (intro filter_True) (auto dest: set_takeWhileD)
    have "filter (\<lambda>c. \<not> isspace c) s = filter (\<lambda>c. \<not> isspace c) (?t @ d # rest)"
      using s by simp
    also have "\<dots> = ?t @ filter (\<lambda>c. \<not> isspace c) rest"
      using d t by simp
    also have "\<dots> = ?t @ concat (re_split_ws (dropWhile isspace rest))"
      using "1.IH" [OF Cons] by (simp add: filter_dropWhile_same)
    finally show ?thesis using eq by simp
  qed
qed

subsection \<open>The methods\<close>

lemma isspace_TAB: "isspace TAB"
  by (simp add: isspace_def)

lemma spec_whitespace_isspace: "spec_whitespace c \<Longrightarrow> isspace c"
  by (auto simp: spec_whitespace_def isspace_def)

lemma preprocess_eq:
  "preprocess p = (Inr (re_sub_tabs (py_strip (self_text p))), p)"
  by (simp add: preprocess_def)

lemma tokenize_eq:
  "tokenize p =
     (Inr (if re_sub_tabs (py_strip (self_text p)) = [] then []
           else re_split_ws (re_sub_tabs (py_strip (self_text p)))), p)"
  by (simp add: tokenize_def preprocess_eq)

lemma count_words_eq:
  "count_words p = (Inr (int (length (projr (fst (tokenize p))))), p)"
  by (simp add: count_words_def profile_def count_words_body_def tokenize_eq py_len_def)

lemma py_count_filter: "py_count xs x = int (length (filter (\<lambda>y. y = x) xs))"
  by (induction xs) simp_all

lemma py_count_PyStr:
  "py_count (map PyStr toks) (PyStr w) = int (length (filter (\<lambda>tok. tok = w) toks))"
  by (induction toks) simp_all

lemma word_frequency_str:
  "word_frequency p (PyStr w) =
     (Inr (int (length (filter (\<lambda>tok. tok = w) (projr (fst (tokenize p)))))), p)"
  by (simp add: word_frequency_def tokenize_eq py_count_PyStr)

lemma normalized_ends:
  assumes "re_sub_tabs (py_strip t) \<noteq> []"
  shows "\<not> isspace (hd (re_sub_tabs (py_strip t)))"
    and "\<not> isspace (last (re_sub_tabs (py_strip t)))"
proof -
  from assms have ne: "py_strip t \<noteq> []" by (simp add: re_sub_tabs_eq_Nil)
  have h: "\<not> isspace (hd (py_strip t))" using ne by (rule py_strip_hd)
  have l: "\<not> isspace (last (py_strip t))" using ne by (rule py_strip_last)
  from h have "hd (py_strip t) \<noteq> TAB" using isspace_TAB by auto
  with ne h show "\<not> isspace (hd (re_sub_tabs (py_strip t)))" by (simp add: re_sub_tabs_hd)
  from l have "last (py_strip t) \<noteq> TAB" using isspace_TAB by auto
  with ne l show "\<not> isspace (last (re_sub_tabs (py_strip t)))" by (simp add: re_sub_tabs_last)
qed

lemma normalized_fixed: "re_sub_tabs (py_strip (re_sub_tabs (py_strip t))) = re_sub_tabs (py_strip t)"
proof -
  let ?n = "re_sub_tabs (py_strip t)"
  have "?n = [] \<or> (\<not> isspace (hd ?n) \<and> \<not> isspace (last ?n))"
    using normalized_ends [of t] by blast
  then have "py_strip ?n = ?n" by (rule py_strip_fixed)
  moreover have "re_sub_tabs ?n = ?n" by (rule re_sub_tabs_id) (rule re_sub_tabs_no_tab)
  ultimately show ?thesis by simp
qed

lemma tokens_not_empty: "fst (tokenize p) = Inr toks \<Longrightarrow> [] \<notin> set toks"
  using normalized_ends [of "self_text p"]
  by (auto simp: tokenize_eq re_split_ws_no_empty split: if_splits)

lemma tokens_clean: "fst (tokenize p) = Inr toks \<Longrightarrow> tok \<in> set toks \<Longrightarrow> c \<in> set tok \<Longrightarrow> \<not> isspace c"
  by (auto simp: tokenize_eq split: if_splits dest: re_split_ws_tokens_clean)

lemma tokens_spec_split:
  assumes "n = re_sub_tabs (py_strip t)" "n \<noteq> []"
  shows "re_split_ws n = spec_split isspace [] n"
proof -
  have "[] \<notin> set (re_split_ws n)"
    using assms normalized_ends [of t] by (intro re_split_ws_no_empty) simp_all
  then have "filter (\<lambda>w. w \<noteq> []) (re_split_ws n) = re_split_ws n"
    by (intro filter_True) auto
  moreover have "spec_split isspace [] n = filter (\<lambda>w. w \<noteq> []) (re_split_ws ([] @ n))"
    by (rule spec_split_re_split) simp
  ultimately show ?thesis by simp
qed

lemma length_filter_count_list:
  "length (filter (\<lambda>tok. tok = w) toks) = count_list toks w"
  by (induction toks) auto

lemma sum_py_count_remdups:
  "sum_list (map (\<lambda>w. int (length (filter (\<lambda>tok. tok = w) toks))) (remdups toks)) = int (length toks)"
proof -
  have c: "\<And>w. length (filter (\<lambda>tok. tok = w) toks) = count_list toks w"
    by (rule length_filter_count_list)
  have "sum_list (map (\<lambda>w. int (count_list toks w)) (remdups toks))
        = (\<Sum>w \<in> set toks. int (count_list toks w))"
    by (simp add: sum_list_distinct_conv_sum_set)
  also have "\<dots> = int (\<Sum>w \<in> set toks. count_list toks w)" by simp
  also have "\<dots> = int (length toks)" by (simp add: sum_count_set)
  finally show ?thesis by (simp add: c)
qed

section \<open>Claims\<close>

subsection \<open>C1: what preprocess returns\<close>

text \<open>
  Read with the six whitespace characters the specification lists, the description of
  normalize fails on the code: U+001C (file separator) is none of the six, yet
  \<open>str.strip()\<close> removes it. For the text U+001C followed by \<open>a\<close> the code returns
  \<open>a\<close>, the description keeps both characters.
\<close>

theorem preprocess_six_whitespace_counterexample:
  "fst (preprocess \<lparr>self_text = [28, 97]\<rparr>) = Inr [97] \<and>
   spec_normalize spec_whitespace [28, 97] = [28, 97] \<and>
   fst (preprocess \<lparr>self_text = [28, 97]\<rparr>) \<noteq> Inr (spec_normalize spec_whitespace [28, 97])"
  by (simp add: preprocess_def Let_def py_strip_def isspace_def re_sub_tabs.simps
      spec_normalize_def spec_strip_def spec_whitespace_def)

text \<open>
  C1, amended: for every text, \<open>preprocess\<close> returns the text with the leading and the
  trailing run of whitespace removed, whitespace being every character Python's
  \<open>str.isspace\<close> accepts (the six listed ones and U+001C..U+001F, U+0085, U+00A0,
  U+1680, U+2000..U+200A, U+2028, U+2029, U+202F, U+205F, U+3000), and then every maximal
  run of tabs replaced by one space, all other characters unchanged. It always returns
  and leaves the instance as it was.
\<close>

theorem preprocess_spec:
  "preprocess p = (Inr (spec_normalize isspace (self_text p)), p)"
  by (simp add: preprocess_eq spec_normalize_def py_strip_spec re_sub_tabs_spec)

theorem preprocess_spec_witness:
  "preprocess \<lparr>self_text = 9 # str ''Hello '' @ [10]\<rparr>
     = (Inr (str ''Hello''), \<lparr>self_text = 9 # str ''Hello '' @ [10]\<rparr>) \<and>
   preprocess \<lparr>self_text = str ''Hello'' @ [9, 9] @ str ''world''\<rparr>
     = (Inr (str ''Hello world''), \<lparr>self_text = str ''Hello'' @ [9, 9] @ str ''world''\<rparr>)"
  using preprocess_spec [of "\<lparr>self_text = 9 # str ''Hello '' @ [10]\<rparr>"]
    preprocess_spec [of "\<lparr>self_text = str ''Hello'' @ [9, 9] @ str ''world''\<rparr>"]
  by (simp add: spec_normalize_def spec_strip_def isspace_def)

subsection \<open>C2: what tokenize returns\<close>

text \<open>
  C2: for every text, \<open>tokenize\<close> computes the normalized text \<open>n\<close>; when \<open>n\<close> is empty
  it returns the empty list, otherwise the words obtained by splitting \<open>n\<close> on maximal
  runs of whitespace, in order. No token is empty, and the tokens, concatenated, are the
  characters of \<open>n\<close> that are no whitespace. It always returns.
\<close>

theorem tokenize_spec:
  "\<exists>n. fst (preprocess p) = Inr n \<and>
       tokenize p = (Inr (if n = [] then [] else spec_split isspace [] n), p) \<and>
       [] \<notin> set (projr (fst (tokenize p))) \<and>
       concat (projr (fst (tokenize p))) = filter (\<lambda>c. \<not> isspace c) n"
proof -
  let ?n = "re_sub_tabs (py_strip (self_text p))"
  have 1: "fst (preprocess p) = Inr ?n" by (simp add: preprocess_eq)
  have 2: "tokenize p = (Inr (if ?n = [] then [] else spec_split isspace [] ?n), p)"
    using tokens_spec_split [of ?n "self_text p"] by (simp add: tokenize_eq)
  have 3: "[] \<notin> set (projr (fst (tokenize p)))"
    using tokens_not_empty [of p] by (simp add: tokenize_eq)
  have 4: "concat (projr (fst (tokenize p))) = filter (\<lambda>c. \<not> isspace c) ?n"
    by (simp add: tokenize_eq re_split_ws_concat)
  from 1 2 3 4 show ?thesis by blast
qed

theorem tokenize_spec_witness:
  "tokenize \<lparr>self_text = str ''a  b'' @ [9] @ str ''c''\<rparr>
     = (Inr [str ''a'', str ''b'', str ''c''], \<lparr>self_text = str ''a  b'' @ [9] @ str ''c''\<rparr>) \<and>
   tokenize \<lparr>self_text = []\<rparr> = (Inr [], \<lparr>self_text = []\<rparr>)"
  using tokenize_spec [of "\<lparr>self_text = str ''a  b'' @ [9] @ str ''c''\<rparr>"]
    tokenize_spec [of "\<lparr>self_text = []\<rparr>"]
  by (simp add: tokenize_def preprocess_def Let_def py_strip_def isspace_def
      re_sub_tabs.simps re_split_ws.simps)

subsection \<open>C3: what \<open>word_frequency\<close> returns for a string\<close>

text \<open>
  C3: for every text and every string \<open>w\<close>, \<open>word_frequency\<close> returns the number of
  elements of the token list that are equal to \<open>w\<close>; \<open>w\<close> is compared as it is given.
\<close>

theorem word_frequency_counts:
  "\<exists>toks. fst (tokenize p) = Inr toks \<and>
          word_frequency p (PyStr w) = (Inr (int (length (filter (\<lambda>tok. tok = w) toks))), p)"
  by (simp add: word_frequency_str tokenize_eq)

theorem word_frequency_counts_witness:
  "word_frequency \<lparr>self_text = str ''Hello hello HELLO spam spam''\<rparr> (PyStr (str ''hello''))
     = (Inr 1, \<lparr>self_text = str ''Hello hello HELLO spam spam''\<rparr>) \<and>
   word_frequency \<lparr>self_text = str ''Hello hello HELLO spam spam''\<rparr> (PyStr (str ''spam''))
     = (Inr 2, \<lparr>self_text = str ''Hello hello HELLO spam spam''\<rparr>) \<and>
   word_frequency \<lparr>self_text = str ''Hello hello HELLO spam spam''\<rparr> (PyStr (str ''ham''))
     = (Inr 0, \<lparr>self_text = str ''Hello hello HELLO spam spam''\<rparr>) \<and>
   word_frequency \<lparr>self_text = str ''Hello hello HELLO spam spam''\<rparr> (PyStr (str ''spam ''))
     = (Inr 0, \<lparr>self_text = str ''Hello hello HELLO spam spam''\<rparr>)"
  using word_frequency_counts [of "\<lparr>self_text = str ''Hello hello HELLO spam spam''\<rparr>" "str ''hello''"]
    word_frequency_counts [of "\<lparr>self_text = str ''Hello hello HELLO spam spam''\<rparr>" "str ''spam''"]
    word_frequency_counts [of "\<lparr>self_text = str ''Hello hello HELLO spam spam''\<rparr>" "str ''ham''"]
    word_frequency_counts [of "\<lparr>self_text = str ''Hello hello HELLO spam spam''\<rparr>" "str ''spam ''"]
  by (simp add: word_frequency_def tokenize_def preprocess_def Let_def py_strip_def isspace_def
      re_sub_tabs.simps re_split_ws.simps)

subsection \<open>C4: the one checked failure\<close>

text \<open>
  C4: \<open>word_frequency\<close> raises exactly when its argument is no string; the exception is
  the \<open>TypeError\<close> whose message names the type received, and the instance is as it was.
  \<open>preprocess\<close>, \<open>tokenize\<close> and \<open>count_words\<close> return a value for every text and leave
  the instance as it was.
\<close>

theorem word_frequency_only_failure:
  "((\<exists>e. fst (word_frequency p word) = Inl e) \<longleftrightarrow> \<not> isinstance_str word) \<and>
   (\<not> isinstance_str word \<longrightarrow>
      word_frequency p word = (Inl (TypeError (''Expected str, got '' @ type_name word)), p)) \<and>
   (\<exists>n. preprocess p = (Inr n, p)) \<and>
   (\<exists>toks. tokenize p = (Inr toks, p)) \<and>
   (\<exists>k. count_words p = (Inr k, p))"
proof -
  have 1: "(\<exists>e. fst (word_frequency p word) = Inl e) \<longleftrightarrow> \<not> isinstance_str word"
    by (simp add: word_frequency_def tokenize_eq)
  have 2: "\<not> isinstance_str word \<longrightarrow>
      word_frequency p word = (Inl (TypeError (''Expected str, got '' @ type_name word)), p)"
    by (simp add: word_frequency_def)
  have 3: "\<exists>n. preprocess p = (Inr n, p)" by (simp add: preprocess_eq)
  have 4: "\<exists>toks. tokenize p = (Inr toks, p)" by (simp add: tokenize_eq)
  have 5: "\<exists>k. count_words p = (Inr k, p)" by (simp add: count_words_eq)
  from 1 2 3 4 5 show ?thesis by blast
qed

theorem word_frequency_only_failure_witness:
  "\<not> isinstance_str PyNone \<and>
   word_frequency \<lparr>self_text = str ''hello world''\<rparr> PyNone
     = (Inl (TypeError ''Expected str, got NoneType''), \<lparr>self_text = str ''hello world''\<rparr>) \<and>
   \<not> isinstance_str (PyInt 3) \<and>
   word_frequency \<lparr>self_text = [32, 9]\<rparr> (PyInt 3)
     = (Inl (TypeError ''Expected str, got int''), \<lparr>self_text = [32, 9]\<rparr>)"
  using word_frequency_only_failure [of "\<lparr>self_text = str ''hello world''\<rparr>" PyNone]
    word_frequency_only_failure [of "\<lparr>self_text = [32, 9]\<rparr>" "PyInt 3"]
  by simp

subsection \<open>C5: the frequencies of the distinct tokens add up to the word count\<close>

text \<open>
  C5: for every text, the sum of \<open>word_frequency\<close> over the distinct tokens is
  \<open>count_words\<close>, and \<open>count_words\<close> is 0 when the token list is empty.
\<close>

theorem frequencies_sum_to_count:
  "\<exists>toks k freq.
     fst (tokenize p) = Inr toks \<and>
     fst (count_words p) = Inr k \<and>
     (\<forall>w. fst (word_frequency p (PyStr w)) = Inr (freq w)) \<and>
     sum_list (map freq (remdups toks)) = k \<and>
     (toks = [] \<longrightarrow> k = 0)"
proof -
  let ?toks = "projr (fst (tokenize p))"
  let ?freq = "\<lambda>w. int (length (filter (\<lambda>tok. tok = w) ?toks))"
  have 1: "fst (tokenize p) = Inr ?toks" by (simp add: tokenize_eq)
  have 2: "fst (count_words p) = Inr (int (length ?toks))" by (simp add: count_words_eq)
  have 3: "\<forall>w. fst (word_frequency p (PyStr w)) = Inr (?freq w)"
    by (simp add: word_frequency_str)
  have 4: "sum_list (map ?freq (remdups ?toks)) = int (length ?toks)"
    by (rule sum_py_count_remdups)
  have 5: "?toks = [] \<longrightarrow> int (length ?toks) = 0" by simp
  show ?thesis
    by (rule exI [of _ ?toks], rule exI [of _ "int (length ?toks)"], rule exI [of _ ?freq])
      (use 1 2 3 4 5 in blast)
qed

theorem frequencies_sum_to_count_witness:
  "fst (tokenize \<lparr>self_text = str ''a b a''\<rparr>) = Inr [str ''a'', str ''b'', str ''a''] \<and>
   fst (count_words \<lparr>self_text = str ''a b a''\<rparr>) = Inr 3 \<and>
   fst (word_frequency \<lparr>self_text = str ''a b a''\<rparr> (PyStr (str ''a''))) = Inr 2 \<and>
   fst (word_frequency \<lparr>self_text = str ''a b a''\<rparr> (PyStr (str ''b''))) = Inr 1 \<and>
   fst (tokenize \<lparr>self_text = [32]\<rparr>) = Inr [] \<and>
   fst (count_words \<lparr>self_text = [32]\<rparr>) = Inr 0"
  using frequencies_sum_to_count [of "\<lparr>self_text = str ''a b a''\<rparr>"]
    frequencies_sum_to_count [of "\<lparr>self_text = [32]\<rparr>"]
  by (simp add: count_words_def profile_def count_words_body_def py_len_def
      word_frequency_def tokenize_def preprocess_def Let_def py_strip_def isspace_def
      re_sub_tabs.simps re_split_ws.simps)

subsection \<open>C6: preprocess is idempotent\<close>

text \<open>
  C6: for every text, preprocessing the result of \<open>preprocess\<close> gives that result again.
\<close>

theorem preprocess_idempotent:
  "\<exists>n. fst (preprocess p) = Inr n \<and> fst (preprocess \<lparr>self_text = n\<rparr>) = Inr n"
  by (simp add: preprocess_eq normalized_fixed)

theorem preprocess_idempotent_witness:
  "fst (preprocess \<lparr>self_text = [32, 9] @ str ''a'' @ [9, 9, 32, 9] @ str ''b'' @ [10]\<rparr>)
     = Inr (str ''a   b'') \<and>
   fst (preprocess \<lparr>self_text = str ''a   b''\<rparr>) = Inr (str ''a   b'')"
  using preprocess_idempotent [of "\<lparr>self_text = [32, 9] @ str ''a'' @ [9, 9, 32, 9] @ str ''b'' @ [10]\<rparr>"]
  by (simp add: preprocess_def Let_def py_strip_def isspace_def re_sub_tabs.simps)

subsection \<open>C7: \<open>count_words\<close> is the length of the token list\<close>

text \<open>
  C7: for every text, \<open>count_words\<close> returns the length of the list \<open>tokenize\<close> returns,
  a number that is not negative; it always returns, and the decorator \<open>profile\<close> hands
  back a function that behaves as the one it was given.
\<close>

theorem count_words_is_length:
  "(\<exists>toks. tokenize p = (Inr toks, p) \<and> count_words p = (Inr (int (length toks)), p)) \<and>
   (\<exists>k. fst (count_words p) = Inr k \<and> 0 \<le> k) \<and>
   count_words p = count_words_body p \<and>
   profile f = f"
proof -
  have 1: "\<exists>toks. tokenize p = (Inr toks, p) \<and> count_words p = (Inr (int (length toks)), p)"
    by (simp add: count_words_eq tokenize_eq)
  have 2: "\<exists>k. fst (count_words p) = Inr k \<and> 0 \<le> k"
    by (simp add: count_words_eq)
  have 3: "count_words p = count_words_body p"
    by (simp add: count_words_def profile_def)
  have 4: "profile f = f"
    by (simp add: profile_def)
  from 1 2 3 4 show ?thesis by blast
qed

theorem count_words_is_length_witness:
  "count_words \<lparr>self_text = str ''a a b''\<rparr> = (Inr 3, \<lparr>self_text = str ''a a b''\<rparr>) \<and>
   count_words \<lparr>self_text = []\<rparr> = (Inr 0, \<lparr>self_text = []\<rparr>)"
  using count_words_is_length [of "\<lparr>self_text = str ''a a b''\<rparr>" id]
    count_words_is_length [of "\<lparr>self_text = []\<rparr>" id]
  by (simp add: count_words_def profile_def count_words_body_def py_len_def
      tokenize_def preprocess_def Let_def py_strip_def isspace_def
      re_sub_tabs.simps re_split_ws.simps)

subsection \<open>C8: a text that is not blank has words\<close>

text \<open>
  C8: for every text whose \<open>strip()\<close> is not empty, the normalized text is not empty and
  \<open>count_words\<close> is positive.
\<close>

theorem nonblank_has_words:
  "py_strip (self_text p) \<noteq> [] \<Longrightarrow>
   \<exists>n k. fst (preprocess p) = Inr n \<and> n \<noteq> [] \<and> fst (count_words p) = Inr k \<and> 0 < k"
  by (simp add: preprocess_eq count_words_eq tokenize_eq re_sub_tabs_eq_Nil re_split_ws_not_Nil)

theorem nonblank_has_words_witness:
  "py_strip (self_text \<lparr>self_text = [9] @ str ''Hello '' @ [10]\<rparr>) \<noteq> [] \<and>
   fst (preprocess \<lparr>self_text = [9] @ str ''Hello '' @ [10]\<rparr>) = Inr (str ''Hello'') \<and>
   fst (count_words \<lparr>self_text = [9] @ str ''Hello '' @ [10]\<rparr>) = Inr 1"
proof -
  have h: "py_strip (self_text \<lparr>self_text = [9] @ str ''Hello '' @ [10]\<rparr>) \<noteq> []"
    by (simp add: py_strip_def isspace_def)
  show ?thesis
    using h nonblank_has_words [OF h]
    by (simp add: count_words_def profile_def count_words_body_def py_len_def
        tokenize_def preprocess_def Let_def py_strip_def isspace_def
        re_sub_tabs.simps re_split_ws.simps)
qed

subsection \<open>C9: the empty string is never a token\<close>

text \<open>
  C9: for every text, \<open>word_frequency\<close> of the empty string is 0.
\<close>

theorem empty_word_frequency:
  "word_frequency p (PyStr []) = (Inr 0, p)"
proof -
  have "[] \<notin> set (projr (fst (tokenize p)))"
    using tokens_not_empty [of p] by (simp add: tokenize_eq)
  then have "filter (\<lambda>tok. tok = []) (projr (fst (tokenize p))) = []"
    by (auto simp: filter_empty_conv)
  then show ?thesis by (simp add: word_frequency_str)
qed

theorem empty_word_frequency_witness:
  "word_frequency \<lparr>self_text = str '' a  b ''\<rparr> (PyStr []) = (Inr 0, \<lparr>self_text = str '' a  b ''\<rparr>) \<and>
   word_frequency \<lparr>self_text = []\<rparr> (PyStr []) = (Inr 0, \<lparr>self_text = []\<rparr>)"
  using empty_word_frequency [of "\<lparr>self_text = str '' a  b ''\<rparr>"]
    empty_word_frequency [of "\<lparr>self_text = []\<rparr>"]
  by simp

subsection \<open>C10: tokens hold no whitespace\<close>

text \<open>
  C10: for every text, no token contains a whitespace character, so \<open>word_frequency\<close>
  is 0 for every string that contains one. Whitespace is what \<open>str.isspace\<close> accepts,
  which includes the six characters the specification lists.
\<close>

theorem tokens_hold_no_whitespace:
  "\<exists>toks. fst (tokenize p) = Inr toks \<and>
     (\<forall>tok \<in> set toks. \<forall>c \<in> set tok. \<not> isspace c \<and> \<not> spec_whitespace c) \<and>
     (\<forall>w. (\<exists>c \<in> set w. isspace c \<or> spec_whitespace c) \<longrightarrow>
          word_frequency p (PyStr w) = (Inr 0, p))"
proof -
  let ?toks = "projr (fst (tokenize p))"
  have 1: "fst (tokenize p) = Inr ?toks" by (simp add: tokenize_eq)
  have 2: "\<forall>tok \<in> set ?toks. \<forall>c \<in> set tok. \<not> isspace c \<and> \<not> spec_whitespace c"
    using tokens_clean [OF 1] spec_whitespace_isspace by blast
  have 3: "word_frequency p (PyStr w) = (Inr 0, p)"
    if "\<exists>c \<in> set w. isspace c \<or> spec_whitespace c" for w
  proof -
    from that 2 have "w \<notin> set ?toks" by blast
    then have "filter (\<lambda>tok. tok = w) ?toks = []" by (auto simp: filter_empty_conv)
    then show ?thesis by (simp add: word_frequency_str)
  qed
  from 1 2 3 show ?thesis by blast
qed

theorem tokens_hold_no_whitespace_witness:
  "fst (tokenize \<lparr>self_text = str ''a b'' @ [9] @ str ''c''\<rparr>) = Inr [str ''a'', str ''b'', str ''c''] \<and>
   (\<exists>c \<in> set (str ''a b''). isspace c \<or> spec_whitespace c) \<and>
   fst (word_frequency \<lparr>self_text = str ''a b'' @ [9] @ str ''c''\<rparr> (PyStr (str ''a b''))) = Inr 0 \<and>
   fst (word_frequency \<lparr>self_text = str ''a b'' @ [9] @ str ''c''\<rparr> (PyStr (str ''b'' @ [9] @ str ''c''))) = Inr 0 \<and>
   fst (word_frequency \<lparr>self_text = str ''a b'' @ [9] @ str ''c''\<rparr> (PyStr [32])) = Inr 0"
  using tokens_hold_no_whitespace [of "\<lparr>self_text = str ''a b'' @ [9] @ str ''c''\<rparr>"]
  by (simp add: word_frequency_def tokenize_def preprocess_def Let_def py_strip_def isspace_def
      re_sub_tabs.simps re_split_ws.simps)

end
